theory Spec2Isabelle
  imports Main "HOL-Library.Sublist"
begin

section \<open>Text primitives of the Python runtime\<close>

text \<open>
  A Python \<open>str\<close> is modelled as a \<open>string\<close> whose characters are code points below 256;
  the library methods the driver calls are written out for that range.
\<close>

definition isspace :: "char \<Rightarrow> bool" where
  \<comment> \<open>\<open>str.isspace\<close> on one code point: TAB..CR, FS..US, space, NEL, NBSP.\<close>
  "isspace c =
     (let n = (of_char c :: nat)
      in (9 \<le> n \<and> n \<le> 13) \<or> (28 \<le> n \<and> n \<le> 32) \<or> n = 133 \<or> n = 160)"

definition strip :: "string \<Rightarrow> string" where
  "strip s = rev (dropWhile isspace (rev (dropWhile isspace s)))"

definition lower_char :: "char \<Rightarrow> char" where
  "lower_char c =
     (let n = (of_char c :: nat)
      in if (65 \<le> n \<and> n \<le> 90) \<or> (192 \<le> n \<and> n \<le> 214) \<or> (216 \<le> n \<and> n \<le> 222)
         then char_of (n + 32) else c)"

definition lower :: "string \<Rightarrow> string" where
  "lower s = map lower_char s"

definition startswith :: "string \<Rightarrow> string \<Rightarrow> bool" where
  "startswith s p = prefix p s"

definition is_linebreak :: "char \<Rightarrow> bool" where
  \<comment> \<open>The line boundaries of \<open>str.splitlines\<close>: LF, VT, FF, CR, FS, GS, RS, NEL.\<close>
  "is_linebreak c =
     (let n = (of_char c :: nat)
      in (10 \<le> n \<and> n \<le> 13) \<or> (28 \<le> n \<and> n \<le> 30) \<or> n = 133)"

fun splitlines :: "string \<Rightarrow> string list" where
  "splitlines [] = []"
| "splitlines [c] = (if is_linebreak c then [[]] else [[c]])"
| "splitlines (c # d # cs) =
     (if c = CHR 0x0D \<and> d = CHR 0x0A then [] # splitlines cs
      else if is_linebreak c then [] # splitlines (d # cs)
      else (case splitlines (d # cs) of
              [] \<Rightarrow> [[c]]
            | l # ls \<Rightarrow> (c # l) # ls))"

fun join :: "string \<Rightarrow> string list \<Rightarrow> string" where
  "join sep [] = []"
| "join sep [x] = x"
| "join sep (x # y # ys) = x @ sep @ join sep (y # ys)"

fun split1 :: "char \<Rightarrow> string \<Rightarrow> string list" where
  \<comment> \<open>\<open>s.split(sep, 1)\<close> for a one-character separator.\<close>
  "split1 sep [] = [[]]"
| "split1 sep (c # cs) =
     (if c = sep then [[], cs]
      else (case split1 sep cs of
              [l] \<Rightarrow> [c # l]
            | l # ls \<Rightarrow> (c # l) # ls
            | [] \<Rightarrow> [[c]]))"

definition digit_char :: "nat \<Rightarrow> char" where
  "digit_char d = ''0123456789'' ! d"

function str_nat :: "nat \<Rightarrow> string" where
  "str_nat n = (if n < 10 then [digit_char n] else str_nat (n div 10) @ [digit_char (n mod 10)])"
  by pat_completeness auto
termination
  by (relation "measure id") auto

definition str_int :: "int \<Rightarrow> string" where
  "str_int i = (if i < 0 then CHR ''-'' # str_nat (nat (- i)) else str_nat (nat i))"


section \<open>The shell tool\<close>

text \<open>
  \<open>shlex.split\<close> and \<open>subprocess.run\<close> belong to the standard library and to the
  operating system. They are parameters of the model: each either raises an
  \<open>Exception\<close>, of which only the text \<open>str(e)\<close> is observed (\<open>Inl\<close>), or returns.
  \<open>subprocess_run\<close> receives the argument vector, the \<open>cwd\<close> argument and the timeout.
  Interrupts, which are no \<open>Exception\<close>, are outside the model.
\<close>

record completed_process =
  returncode :: int
  stdout :: string
  stderr :: string

record shell_env =
  shlex_split :: "string \<Rightarrow> string + string list"
  subprocess_run :: "string list \<Rightarrow> string \<Rightarrow> nat \<Rightarrow> string + completed_process"

datatype pyerror =
    ValueError string
  | TypeError
  | KeyError string
  | IndexError
  | EOFError
  | FileNotFoundError
  | NotADirectoryError
  | IsADirectoryError
  | FileExistsError
  | OSError string
  | RuntimeError string

definition WORK_DIR :: "string" where
  "WORK_DIR = ''workspace''"

definition allowed_prefixes :: "string list" where
  "allowed_prefixes = [''echo '', ''python '', ''pytest'', ''ls'', ''cat '']"

definition command_allowed :: "string \<Rightarrow> bool" where
  \<comment> \<open>\<open>any(command.startswith(p) for p in allowed_prefixes)\<close>\<close>
  "command_allowed command = list_ex (startswith command) allowed_prefixes"

definition format_result :: "completed_process \<Rightarrow> string" where
  "format_result res =
     (let out = strip (stdout res);
          err = strip (stderr res);
          code = returncode res
      in ''exit='' @ str_int code @ [CHR 0x0A] @ ''stdout:'' @ [CHR 0x0A] @ out
           @ [CHR 0x0A, CHR 0x0A] @ ''stderr:'' @ [CHR 0x0A] @ err)"

definition run_subprocess :: "shell_env \<Rightarrow> string \<Rightarrow> string + string" where
  \<comment> \<open>The body of the \<open>try\<close> block: \<open>Inl\<close> is an exception raised inside it.\<close>
  "run_subprocess env command =
     (case shlex_split env command of
        Inl e \<Rightarrow> Inl e
      | Inr argv \<Rightarrow>
          (case subprocess_run env argv WORK_DIR 30 of
             Inl e \<Rightarrow> Inl e
           | Inr res \<Rightarrow> Inr (format_result res)))"

definition run_shell_tool :: "shell_env \<Rightarrow> string \<Rightarrow> pyerror + string" where
  "run_shell_tool env command =
     (if \<not> command_allowed command then Inr ''Rejected: command not allowed by policy.''
      else (case run_subprocess env command of
              Inr s \<Rightarrow> Inr s
            | Inl e \<Rightarrow> Inr (''Error running command: '' @ e)))"


section \<open>The sandbox guard\<close>

text \<open>
  A \<open>pathlib\<close> path is its list of components and whether it is anchored at the root.
  A resolved path is absolute: the list of its components below \<open>/\<close>.

  \<open>Path.resolve\<close> and the operating system's own checks of a name belong to the
  platform and are parameters of the model. \<open>resolve\<close> either raises (a NUL in the
  name, a loop of symbolic links) or returns the absolute path that the name leads to in
  the tree at hand, symbolic links followed. \<open>refuses\<close> gives the error with which the
  system fails a call on a name for a reason that lies outside the tree (a component or
  a path too long, a NUL, a permission, no space left), and \<open>None\<close> for a name it
  accepts. The driver creates no link and changes no permission, so both stay the same
  during a run.
\<close>

type_synonym path = "string list"

record pure_path =
  is_absolute :: bool
  parts :: "string list"

record platform =
  resolve :: "pure_path \<Rightarrow> pyerror + path"
  refuses :: "string list \<Rightarrow> pyerror option"

fun split_on :: "char \<Rightarrow> string \<Rightarrow> string list" where
  "split_on sep [] = [[]]"
| "split_on sep (c # cs) =
     (if c = sep then [] # split_on sep cs
      else (case split_on sep cs of
              [] \<Rightarrow> [[c]]
            | l # ls \<Rightarrow> (c # l) # ls))"

definition parse_path :: "string \<Rightarrow> pure_path" where
  \<comment> \<open>Empty and \<open>.\<close> components are dropped when a path is built; \<open>..\<close> is kept.\<close>
  "parse_path s =
     \<lparr>is_absolute = startswith s ''/'',
      parts = filter (\<lambda>x. x \<noteq> [] \<and> x \<noteq> ''.'') (split_on (CHR ''/'') s)\<rparr>"

definition joinpath :: "pure_path \<Rightarrow> pure_path \<Rightarrow> pure_path" where
  \<comment> \<open>\<open>a / b\<close>: an absolute right operand replaces the left one.\<close>
  "joinpath a b =
     (if is_absolute b then b
      else \<lparr>is_absolute = is_absolute a, parts = parts a @ parts b\<rparr>)"

definition parents :: "path \<Rightarrow> path list" where
  \<comment> \<open>\<open>p.parents\<close>: the proper ancestors, nearest first, the root last.\<close>
  "parents p = map (\<lambda>k. take k p) (rev [0..<length p])"

definition path_str :: "path \<Rightarrow> string" where
  "path_str p = CHR ''/'' # join ''/'' p"

definition pure_path_str :: "pure_path \<Rightarrow> string" where
  "pure_path_str p =
     (if is_absolute p then path_str (parts p)
      else if parts p = [] then ''.'' else join ''/'' (parts p))"

definition sandbox_root :: "platform \<Rightarrow> pyerror + path" where
  \<comment> \<open>\<open>WORK_DIR.resolve()\<close>\<close>
  "sandbox_root pf = resolve pf (parse_path WORK_DIR)"

definition safe_path :: "platform \<Rightarrow> string \<Rightarrow> pyerror + path" where
  "safe_path pf rel_path =
     (case resolve pf (joinpath (parse_path WORK_DIR) (parse_path rel_path)) of
        Inl e \<Rightarrow> Inl e
      | Inr p \<Rightarrow>
          (case sandbox_root pf of
             Inl e \<Rightarrow> Inl e
           | Inr w \<Rightarrow>
               if w \<notin> set (parents p) \<and> p \<noteq> w then Inl (ValueError ''Unsafe path.'')
               else Inr p))"


section \<open>The file system\<close>

text \<open>
  The tree maps an absolute path to a directory or to a file with its content; the root
  is always a directory. An operation returns its result, an exception as \<open>Inl\<close>,
  together with the tree it leaves behind. A name that the platform refuses fails in
  every system call with the platform's error. The tree itself holds no symbolic link:
  \<open>write_file_tool\<close> hands it resolved paths only, and the path under
  \<open>generated_code\<close> is looked up as it is written.
\<close>

datatype node = Dir | File string

type_synonym filesystem = "path \<rightharpoonup> node"

definition node_at :: "filesystem \<Rightarrow> path \<Rightarrow> node option" where
  "node_at fs p = (if p = [] then Some Dir else fs p)"

fun is_oserror :: "pyerror \<Rightarrow> bool" where
  "is_oserror FileNotFoundError = True"
| "is_oserror NotADirectoryError = True"
| "is_oserror IsADirectoryError = True"
| "is_oserror FileExistsError = True"
| "is_oserror (OSError _) = True"
| "is_oserror _ = False"

fun walk :: "filesystem \<Rightarrow> path \<Rightarrow> string list \<Rightarrow> pyerror + path" where
  \<comment> \<open>The kernel's lookup of a chain of directory components, starting in directory \<open>cur\<close>.\<close>
  "walk fs cur [] = Inr cur"
| "walk fs cur (c # cs) =
     (let nxt = (if c = ''..'' then butlast cur else cur @ [c])
      in case node_at fs nxt of
           None \<Rightarrow> Inl FileNotFoundError
         | Some (File _) \<Rightarrow> Inl NotADirectoryError
         | Some Dir \<Rightarrow> walk fs nxt cs)"

definition os_mkdir :: "platform \<Rightarrow> filesystem \<Rightarrow> path \<Rightarrow> pyerror + filesystem" where
  "os_mkdir pf fs p =
     (case refuses pf p of
        Some e \<Rightarrow> Inl e
      | None \<Rightarrow>
          if p = [] then Inl FileExistsError
          else case walk fs [] (butlast p) of
                 Inl e \<Rightarrow> Inl e
               | Inr d \<Rightarrow>
                   (case node_at fs (d @ [last p]) of
                      Some _ \<Rightarrow> Inl FileExistsError
                    | None \<Rightarrow> Inr (fs(d @ [last p] \<mapsto> Dir))))"

definition is_dir :: "platform \<Rightarrow> filesystem \<Rightarrow> path \<Rightarrow> pyerror + bool" where
  \<comment> \<open>\<open>Path.is_dir\<close>: a missing path and a \<open>ValueError\<close> give \<open>False\<close>; any other error
      of the \<open>stat\<close> call is raised.\<close>
  "is_dir pf fs p =
     (case refuses pf p of
        Some e \<Rightarrow> if is_oserror e then Inl e else Inr False
      | None \<Rightarrow>
          Inr (p = [] \<or>
               (case walk fs [] (butlast p) of
                  Inl _ \<Rightarrow> False
                | Inr d \<Rightarrow> node_at fs (d @ [last p]) = Some Dir)))"

definition exists_as_dir ::
  "platform \<Rightarrow> filesystem \<Rightarrow> path \<Rightarrow> pyerror \<Rightarrow> (pyerror + unit) \<times> filesystem" where
  \<comment> \<open>The handler \<open>except OSError: if not exist_ok or not self.is_dir(): raise\<close>, with
      \<open>exist_ok\<close> true; an error that is no \<open>OSError\<close> is not caught.\<close>
  "exists_as_dir pf fs p e =
     (if \<not> is_oserror e then (Inl e, fs)
      else (case is_dir pf fs p of
              Inl e' \<Rightarrow> (Inl e', fs)
            | Inr True \<Rightarrow> (Inr (), fs)
            | Inr False \<Rightarrow> (Inl e, fs)))"

definition mkdir_exist_ok ::
  "platform \<Rightarrow> filesystem \<Rightarrow> path \<Rightarrow> (pyerror + unit) \<times> filesystem" where
  \<comment> \<open>\<open>Path.mkdir(parents=False, exist_ok=True)\<close>\<close>
  "mkdir_exist_ok pf fs p =
     (case os_mkdir pf fs p of
        Inr fs' \<Rightarrow> (Inr (), fs')
      | Inl e \<Rightarrow>
          if e = FileNotFoundError then (Inl e, fs)
          else exists_as_dir pf fs p e)"

function mkdir_parents ::
  "platform \<Rightarrow> filesystem \<Rightarrow> path \<Rightarrow> (pyerror + unit) \<times> filesystem" where
  \<comment> \<open>\<open>Path.mkdir(parents=True, exist_ok=True)\<close>\<close>
  "mkdir_parents pf fs p =
     (case os_mkdir pf fs p of
        Inr fs' \<Rightarrow> (Inr (), fs')
      | Inl e \<Rightarrow>
          if e = FileNotFoundError then
            (if p = [] then (Inl e, fs)
             else (case mkdir_parents pf fs (butlast p) of
                     (Inl e', fs1) \<Rightarrow> (Inl e', fs1)
                   | (Inr _, fs1) \<Rightarrow> mkdir_exist_ok pf fs1 p))
          else exists_as_dir pf fs p e)"
  by pat_completeness auto
termination
  by (relation "measure (\<lambda>(pf, fs, p). length p)") auto

definition write_text ::
  "platform \<Rightarrow> filesystem \<Rightarrow> path \<Rightarrow> pure_path \<Rightarrow> string \<Rightarrow> pyerror + filesystem" where
  \<comment> \<open>\<open>open(p, "w")\<close> and write: the file is created or truncated in an existing directory.
      A relative path is looked up from the working directory \<open>cwd\<close>.\<close>
  "write_text pf fs cwd p content =
     (case refuses pf (parts p) of
        Some e \<Rightarrow> Inl e
      | None \<Rightarrow>
          if parts p = [] then Inl IsADirectoryError
          else case walk fs (if is_absolute p then [] else cwd) (butlast (parts p)) of
                 Inl e \<Rightarrow> Inl e
               | Inr d \<Rightarrow>
                   if last (parts p) = ''..'' then Inl IsADirectoryError
                   else (case node_at fs (d @ [last (parts p)]) of
                           Some Dir \<Rightarrow> Inl IsADirectoryError
                         | _ \<Rightarrow> Inr (fs(d @ [last (parts p)] \<mapsto> File content))))"

definition absolute :: "path \<Rightarrow> pure_path" where
  "absolute p = \<lparr>is_absolute = True, parts = p\<rparr>"

definition truthy :: "string option \<Rightarrow> bool" where
  \<comment> \<open>Python's truth value of an optional string: \<open>None\<close> and \<open>""\<close> are false.\<close>
  "truthy v = (case v of None \<Rightarrow> False | Some s \<Rightarrow> s \<noteq> [])"

definition write_file_tool ::
  "platform \<Rightarrow> path \<Rightarrow> filesystem \<Rightarrow> string option \<Rightarrow> string option
     \<Rightarrow> (pyerror + string) \<times> filesystem" where
  "write_file_tool pf cwd fs filename content =
     (case (filename, content) of
        (Some name, Some text) \<Rightarrow>
          if name = [] \<or> text = [] then (Inr ''Error: Missing filename or content.'', fs)
          else (case safe_path pf name of
                  Inl e \<Rightarrow> (Inl e, fs)
                | Inr p \<Rightarrow>
                    (case mkdir_parents pf fs (butlast p) of
                       (Inl e, fs1) \<Rightarrow> (Inl e, fs1)
                     | (Inr _, fs1) \<Rightarrow>
                         (case write_text pf fs1 cwd (absolute p) text of
                            Inl e \<Rightarrow> (Inl e, fs1)
                          | Inr fs2 \<Rightarrow> (Inr (''Wrote file: '' @ path_str p), fs2))))
      | _ \<Rightarrow> (Inr ''Error: Missing filename or content.'', fs))"


section \<open>The code-block extractor\<close>

text \<open>
  \<open>re.search\<close> with the pattern \<open>```[a-zA-Z0-9_-]*\n(.*?)```\<close> and the flag \<open>re.S\<close>.
  At a start position the tag characters are taken greedily; since a line feed is no tag
  character, giving some of them back cannot let the line feed match, so the longest run
  is the only candidate. The lazy group then ends at the first closing fence. Start
  positions are tried from left to right.
\<close>

definition fence :: "string" where
  "fence = ''```''"

definition is_tag_char :: "char \<Rightarrow> bool" where
  \<comment> \<open>the class \<open>[a-zA-Z0-9_-]\<close>\<close>
  "is_tag_char c =
     (let n = (of_char c :: nat)
      in (97 \<le> n \<and> n \<le> 122) \<or> (65 \<le> n \<and> n \<le> 90) \<or> (48 \<le> n \<and> n \<le> 57)
         \<or> c = CHR ''_'' \<or> c = CHR ''-'')"

fun lazy_group :: "string \<Rightarrow> string option" where
  \<comment> \<open>\<open>(.*?)```\<close>: the shortest prefix that a fence follows.\<close>
  "lazy_group [] = None"
| "lazy_group (c # cs) =
     (if startswith (c # cs) fence then Some []
      else map_option ((#) c) (lazy_group cs))"

definition match_here :: "string \<Rightarrow> string option" where
  "match_here s =
     (if startswith s fence then
        (case dropWhile is_tag_char (drop 3 s) of
           [] \<Rightarrow> None
         | c # rest \<Rightarrow> if c = CHR 0x0A then lazy_group rest else None)
      else None)"

fun re_search :: "string \<Rightarrow> string option" where
  \<comment> \<open>\<open>match.group(1)\<close> of the leftmost match, \<open>None\<close> when there is no match.\<close>
  "re_search [] = None"
| "re_search (c # cs) =
     (case match_here (c # cs) of
        Some g \<Rightarrow> Some g
      | None \<Rightarrow> re_search cs)"

text \<open>
  A dictionary of optional strings: a key is missing (\<open>None\<close>), bound to Python's
  \<open>None\<close> (\<open>Some None\<close>) or bound to a string.
\<close>

type_synonym pydict = "string \<rightharpoonup> string option"

definition get :: "pydict \<Rightarrow> string \<Rightarrow> string option" where
  \<comment> \<open>\<open>d.get(k)\<close>\<close>
  "get d k = (case d k of None \<Rightarrow> None | Some v \<Rightarrow> v)"

definition extract_code_block :: "string \<Rightarrow> pyerror + pydict" where
  "extract_code_block text =
     (case re_search text of
        None \<Rightarrow> Inr [''code'' \<mapsto> Some []]
      | Some code \<Rightarrow>
          (case (if code \<noteq> [] then
                   (case splitlines code of
                      [] \<Rightarrow> Inl IndexError
                    | l # _ \<Rightarrow> Inr (strip l))
                 else Inr []) of
             Inl e \<Rightarrow> Inl e
           | Inr first_line \<Rightarrow>
               if startswith (lower first_line) ''# file:'' then
                 (case split1 (CHR '':'') first_line of
                    _ # b # _ \<Rightarrow>
                      Inr [''filename'' \<mapsto> Some (strip b),
                           ''code'' \<mapsto> Some (join [CHR 0x0A] (drop 1 (splitlines code)))]
                  | _ \<Rightarrow> Inl IndexError)
               else Inr [''filename'' \<mapsto> None, ''code'' \<mapsto> Some code]))"

text \<open>
  The reconstructed text of the spec's idempotence property: the opening fence and a line
  feed, the \<open># file:\<close> line when the artifact has a filename, the body, the closing
  fence. The second reading puts the closing fence on a line of its own.
\<close>

definition reconstructed_text :: "pydict \<Rightarrow> string" where
  "reconstructed_text d =
     fence @ [CHR 0x0A]
       @ (case get d ''filename'' of None \<Rightarrow> [] | Some name \<Rightarrow> ''# file: '' @ name @ [CHR 0x0A])
       @ (case get d ''code'' of None \<Rightarrow> [] | Some body \<Rightarrow> body)
       @ fence"

definition reconstructed_text_own_line :: "pydict \<Rightarrow> string" where
  "reconstructed_text_own_line d =
     fence @ [CHR 0x0A]
       @ (case get d ''filename'' of None \<Rightarrow> [] | Some name \<Rightarrow> ''# file: '' @ name @ [CHR 0x0A])
       @ (case get d ''code'' of None \<Rightarrow> [] | Some body \<Rightarrow> body)
       @ [CHR 0x0A] @ fence"


section \<open>Saving the artifact and the end of the driver\<close>

definition GENERATED_DIR :: "string" where
  "GENERATED_DIR = ''generated_code''"

definition saved_mark :: "string" where
  \<comment> \<open>The three-character mark that opens the success message. Two of its code points lie
      above 255; they stand here as question marks.\<close>
  "saved_mark = [CHR 0xE2, CHR ''?'', CHR ''?'']"

definition save_generated_code ::
  "platform \<Rightarrow> path \<Rightarrow> filesystem \<Rightarrow> string \<Rightarrow> pydict
     \<Rightarrow> (pyerror + string) \<times> filesystem" where
  \<comment> \<open>\<open>ts\<close> is what \<open>time.strftime\<close> returns at the call.\<close>
  "save_generated_code pf cwd fs ts parsed =
     (if \<not> truthy (get parsed ''code'') then (Inr ''No code found to save.'', fs)
      else
        let filename = (if truthy (get parsed ''filename'')
                        then (case get parsed ''filename'' of Some f \<Rightarrow> f | None \<Rightarrow> ''snippet.py'')
                        else ''snippet.py'');
            dest = joinpath (parse_path GENERATED_DIR) (parse_path (ts @ ''-'' @ filename))
        in (case parsed ''code'' of
              None \<Rightarrow> (Inl (KeyError ''code''), fs)
            | Some None \<Rightarrow> (Inl TypeError, fs)
            | Some (Some code) \<Rightarrow>
                (case write_text pf fs cwd dest code of
                   Inl e \<Rightarrow> (Inl e, fs)
                 | Inr fs' \<Rightarrow>
                     (Inr (saved_mark @ '' Code saved for end users at '' @ pure_path_str dest),
                      fs'))))"

text \<open>
  The world of the driver after the conversation: the platform, the working directory,
  the file tree, the texts printed so far (oldest first) and the lines the operator will
  type.
\<close>

record world =
  system :: platform
  current_dir :: path
  files :: filesystem
  printed :: "string list"
  keyboard :: "string list"

definition print :: "string \<Rightarrow> world \<Rightarrow> world" where
  "print s w = w\<lparr>printed := printed w @ [s]\<rparr>"

definition input :: "string \<Rightarrow> world \<Rightarrow> (pyerror + string) \<times> world" where
  \<comment> \<open>\<open>input(prompt)\<close>: the prompt is shown, a line is read; end of input raises.\<close>
  "input prompt w =
     (case keyboard w of
        [] \<Rightarrow> (Inl EOFError, print prompt w)
      | l # ls \<Rightarrow> (Inr l, (print prompt w)\<lparr>keyboard := ls\<rparr>))"

definition developer_messages :: "pydict list \<Rightarrow> pydict list" where
  \<comment> \<open>\<open>[m for m in messages if (m.get("name") or "").lower() == "developer"]\<close>\<close>
  "developer_messages messages =
     filter (\<lambda>m. lower (if truthy (get m ''name'')
                         then (case get m ''name'' of Some n \<Rightarrow> n | None \<Rightarrow> [])
                         else []) = ''developer'') messages"

definition last_developer_text :: "pydict list \<Rightarrow> pyerror + string" where
  \<comment> \<open>\<open>dev_msgs[-1]["content"] if dev_msgs else ""\<close>, then handed to \<open>re.search\<close>,
      which raises on \<open>None\<close>.\<close>
  "last_developer_text messages =
     (let dev_msgs = developer_messages messages
      in if dev_msgs = [] then Inr []
         else (case (last dev_msgs) ''content'' of
                 None \<Rightarrow> Inl (KeyError ''content'')
               | Some None \<Rightarrow> Inl TypeError
               | Some (Some t) \<Rightarrow> Inr t))"

definition approve_and_write :: "pydict \<Rightarrow> world \<Rightarrow> (pyerror + unit) \<times> world" where
  \<comment> \<open>The body of \<open>if parsed.get("code"):\<close> in \<open>main\<close>.\<close>
  "approve_and_write parsed w =
     (let filename = (if truthy (get parsed ''filename'')
                      then (case get parsed ''filename'' of Some f \<Rightarrow> f | None \<Rightarrow> ''app.py'')
                      else ''app.py'');
          w1 = print ([CHR 0x0A] @ ''Developer proposed file: '' @ filename) w;
          w2 = print ''Preview (first 20 lines):'' w1
      in case parsed ''code'' of
           None \<Rightarrow> (Inl (KeyError ''code''), w2)
         | Some None \<Rightarrow> (Inl TypeError, w2)
         | Some (Some code) \<Rightarrow>
             (let w3 = print (join [CHR 0x0A] (take 20 (splitlines code))) w2
              in case input ([CHR 0x0A] @ ''Approve writing this file to workspace/? (y/n): '') w3 of
                   (Inl e, w4) \<Rightarrow> (Inl e, w4)
                 | (Inr answer, w4) \<Rightarrow>
                     if lower (strip answer) = ''y'' then
                       (case write_file_tool (system w4) (current_dir w4) (files w4) (Some filename)
                               (Some code) of
                          (Inl e, fs') \<Rightarrow> (Inl e, w4\<lparr>files := fs'\<rparr>)
                        | (Inr result, fs') \<Rightarrow> (Inr (), print result (w4\<lparr>files := fs'\<rparr>)))
                     else (Inr (), print ''Skipped writing file to workspace.'' w4)))"

definition main_after_chat :: "pydict list \<Rightarrow> string \<Rightarrow> world \<Rightarrow> (pyerror + unit) \<times> world" where
  \<comment> \<open>\<open>main\<close> from the selection of the Developer's reply to the end of the approval step;
      \<open>messages\<close> is \<open>group.messages\<close> after the conversation.\<close>
  "main_after_chat messages ts w =
     (case last_developer_text messages of
        Inl e \<Rightarrow> (Inl e, w)
      | Inr code_text \<Rightarrow>
          (case extract_code_block code_text of
             Inl e \<Rightarrow> (Inl e, w)
           | Inr parsed \<Rightarrow>
               (case save_generated_code (system w) (current_dir w) (files w) ts parsed of
                  (Inl e, fs') \<Rightarrow> (Inl e, w\<lparr>files := fs'\<rparr>)
                | (Inr msg, fs') \<Rightarrow>
                    (let w1 = print msg (w\<lparr>files := fs'\<rparr>)
                     in if truthy (get parsed ''code'') then approve_and_write parsed w1
                        else (Inr (), w1)))))"


section \<open>Concrete inputs\<close>

text \<open>
  Three machines for the shell tool: one on which every program prints its arguments and
  exits with 0, one whose \<open>shlex.split\<close> raises, and one whose \<open>subprocess.run\<close> raises
  on the timeout. The file tree holds the three directories the driver creates on start.
\<close>

definition echo_env :: shell_env where
  "echo_env =
     \<lparr>shlex_split = (\<lambda>s. Inr (filter (\<lambda>x. x \<noteq> []) (split_on (CHR '' '') s))),
      subprocess_run = (\<lambda>argv dir t.
         Inr \<lparr>returncode = 0, stdout = join '' '' (drop 1 argv) @ [CHR 0x0A], stderr = []\<rparr>)\<rparr>"

definition unquoted_env :: shell_env where
  "unquoted_env =
     \<lparr>shlex_split = (\<lambda>s. Inl ''No closing quotation''),
      subprocess_run = (\<lambda>argv dir t. Inl [])\<rparr>"

definition timeout_env :: shell_env where
  "timeout_env =
     \<lparr>shlex_split = (\<lambda>s. Inr [s]),
      subprocess_run = (\<lambda>argv dir t. Inl ''timed out after 30 seconds'')\<rparr>"

text \<open>
  Sample platforms. \<open>realpath\<close> resolves a name on a tree whose symbolic links are
  listed, each under its own resolved path and with the resolved path it leads to: a
  link met on the way is replaced by that path, \<open>..\<close> drops the last component, and
  a NUL in a component raises. With the empty list it is resolution on a tree without
  links. \<open>name_limits\<close> refuses a NUL and a component of more than 255 bytes in UTF-8,
  where a code point from 128 on takes two bytes.
\<close>

fun follow :: "(path \<times> path) list \<Rightarrow> path \<Rightarrow> string list \<Rightarrow> path" where
  "follow links cur [] = cur"
| "follow links cur (c # cs) =
     (if c = ''..'' then follow links (butlast cur) cs
      else (case map_of links (cur @ [c]) of
              Some target \<Rightarrow> follow links target cs
            | None \<Rightarrow> follow links (cur @ [c]) cs))"

definition realpath :: "(path \<times> path) list \<Rightarrow> path \<Rightarrow> pure_path \<Rightarrow> pyerror + path" where
  "realpath links cwd p =
     (if list_ex (\<lambda>c. CHR 0x00 \<in> set c) (parts p) then Inl (ValueError ''embedded null byte'')
      else Inr (follow links (if is_absolute p then [] else cwd) (parts p)))"

definition utf8_length :: "string \<Rightarrow> nat" where
  "utf8_length s = length s + length (filter (\<lambda>c. 128 \<le> (of_char c :: nat)) s)"

definition name_limits :: "string list \<Rightarrow> pyerror option" where
  "name_limits p =
     (if list_ex (\<lambda>c. CHR 0x00 \<in> set c) p then Some (ValueError ''embedded null byte'')
      else if list_ex (\<lambda>c. 255 < utf8_length c) p then Some (OSError ''File name too long'')
      else None)"

definition plain_platform :: "path \<Rightarrow> platform" where
  "plain_platform cwd = \<lparr>resolve = realpath [] cwd, refuses = name_limits\<rparr>"

definition home :: path where
  "home = [''home'', ''dev'']"

definition linked_platform :: platform where
  \<comment> \<open>In \<open>/home/dev\<close>, with \<open>workspace/sub\<close> a symbolic link to \<open>/outside\<close>.\<close>
  "linked_platform =
     \<lparr>resolve = realpath [([''home'', ''dev'', ''workspace'', ''sub''], [''outside''])] home,
      refuses = name_limits\<rparr>"

definition fresh_tree :: filesystem where
  "fresh_tree =
     [[''home''] \<mapsto> Dir,
      [''home'', ''dev''] \<mapsto> Dir,
      [''home'', ''dev'', ''workspace''] \<mapsto> Dir,
      [''home'', ''dev'', ''transcripts''] \<mapsto> Dir,
      [''home'', ''dev'', ''generated_code''] \<mapsto> Dir]"


section \<open>The command policy\<close>

lemma command_allowed_iff:
  "command_allowed c \<longleftrightarrow>
     prefix ''echo '' c \<or> prefix ''python '' c \<or> prefix ''pytest'' c
       \<or> prefix ''ls'' c \<or> prefix ''cat '' c"
  by (simp add: command_allowed_def allowed_prefixes_def startswith_def)

lemma run_subprocess_exit: "run_subprocess env c = Inr s \<Longrightarrow> prefix ''exit='' s"
  by (auto simp: run_subprocess_def format_result_def Let_def split: sum.splits)

lemma run_shell_tool_allowed:
  "command_allowed c \<Longrightarrow>
     run_shell_tool env c =
       (case run_subprocess env c of
          Inr s \<Rightarrow> Inr s
        | Inl e \<Rightarrow> Inr (''Error running command: '' @ e))"
  by (simp add: run_shell_tool_def)

lemma run_shell_tool_not_rejected:
  "command_allowed c \<Longrightarrow>
     run_shell_tool env c \<noteq> Inr ''Rejected: command not allowed by policy.''"
  by (auto simp: run_shell_tool_def split: sum.splits dest!: run_subprocess_exit)

lemma run_shell_tool_rejected:
  "\<not> command_allowed c \<Longrightarrow>
     run_shell_tool env c = Inr ''Rejected: command not allowed by policy.''"
  by (simp add: run_shell_tool_def)

text \<open>
  Claim C1, as the spec states it, asks that \<open>echo hi && rm -rf /\<close> be rejected. The policy
  accepts it: the text begins with \<open>echo \<close>, and on the machine where every program
  echoes its arguments the tool runs it and returns the output.
\<close>

theorem chained_command_counterexample:
  "command_allowed ''echo hi && rm -rf /''
   \<and> run_shell_tool echo_env ''echo hi && rm -rf /''
       = Inr ''exit=0\<newline>stdout:\<newline>hi && rm -rf /\<newline>\<newline>stderr:\<newline>''"
  by (simp add: run_shell_tool_def command_allowed_iff run_subprocess_def echo_env_def
      format_result_def WORK_DIR_def strip_def isspace_def str_int_def digit_char_def)

text \<open>
  Claim C1, amended: \<open>rm -rf /\<close> is rejected with the policy message, \<open>echo hi\<close> is
  allowed, and \<open>echo hi && rm -rf /\<close> is allowed as well, as is every command whose
  text begins with \<open>echo \<close>: the check compares literal prefixes and looks at no shell
  operator.
\<close>

theorem policy_check_examples:
  "run_shell_tool env ''rm -rf /'' = Inr ''Rejected: command not allowed by policy.''
   \<and> command_allowed ''echo hi''
   \<and> run_shell_tool env ''echo hi'' \<noteq> Inr ''Rejected: command not allowed by policy.''
   \<and> command_allowed ''echo hi && rm -rf /''
   \<and> run_shell_tool env ''echo hi && rm -rf /''
       \<noteq> Inr ''Rejected: command not allowed by policy.''
   \<and> command_allowed (''echo '' @ rest)"
proof -
  have "\<not> command_allowed ''rm -rf /''"
    by (simp add: command_allowed_iff)
  then have rejected: "run_shell_tool env ''rm -rf /'' = Inr ''Rejected: command not allowed by policy.''"
    by (rule run_shell_tool_rejected)
  have plain: "command_allowed ''echo hi''"
    by (simp add: command_allowed_iff)
  have chained: "command_allowed ''echo hi && rm -rf /''"
    by (simp add: command_allowed_iff)
  have every: "command_allowed (''echo '' @ rest)"
    by (simp add: command_allowed_iff)
  show ?thesis
    using rejected plain chained every
      run_shell_tool_not_rejected [OF plain] run_shell_tool_not_rejected [OF chained]
    by blast
qed

text \<open>
  Claim C5: \<open>run_shell_tool\<close> returns a string on every path. A command that fails the
  policy check yields the policy message; an exception raised by \<open>shlex.split\<close> or by
  \<open>subprocess.run\<close> (a spawn error, the 30-second timeout) yields the text
  \<open>Error running command: \<close> followed by the exception's text; a completed run was started
  with the working directory \<open>workspace\<close> and the timeout 30 and yields the exit code and
  the stripped standard output and standard error.
\<close>

theorem run_shell_tool_never_raises:
  "(\<exists>s. run_shell_tool env command = Inr s)
   \<and> (\<not> command_allowed command \<longrightarrow>
        run_shell_tool env command = Inr ''Rejected: command not allowed by policy.'')
   \<and> (command_allowed command \<and> shlex_split env command = Inl e \<longrightarrow>
        run_shell_tool env command = Inr (''Error running command: '' @ e))
   \<and> (command_allowed command \<and> shlex_split env command = Inr argv
        \<and> subprocess_run env argv ''workspace'' 30 = Inl e \<longrightarrow>
        run_shell_tool env command = Inr (''Error running command: '' @ e))
   \<and> (command_allowed command \<and> shlex_split env command = Inr argv
        \<and> subprocess_run env argv ''workspace'' 30 = Inr res \<longrightarrow>
        run_shell_tool env command =
          Inr (''exit='' @ str_int (returncode res) @ ''\<newline>stdout:\<newline>'' @ strip (stdout res)
               @ ''\<newline>\<newline>stderr:\<newline>'' @ strip (stderr res)))"
proof (intro conjI impI)
  show "\<exists>s. run_shell_tool env command = Inr s"
    by (simp add: run_shell_tool_def split: sum.splits)
next
  assume "\<not> command_allowed command"
  then show "run_shell_tool env command = Inr ''Rejected: command not allowed by policy.''"
    by (rule run_shell_tool_rejected)
next
  assume "command_allowed command \<and> shlex_split env command = Inl e"
  then show "run_shell_tool env command = Inr (''Error running command: '' @ e)"
    by (simp add: run_shell_tool_def run_subprocess_def)
next
  assume "command_allowed command \<and> shlex_split env command = Inr argv
    \<and> subprocess_run env argv ''workspace'' 30 = Inl e"
  then show "run_shell_tool env command = Inr (''Error running command: '' @ e)"
    by (simp add: run_shell_tool_def run_subprocess_def WORK_DIR_def)
next
  assume "command_allowed command \<and> shlex_split env command = Inr argv
    \<and> subprocess_run env argv ''workspace'' 30 = Inr res"
  then show "run_shell_tool env command =
      Inr (''exit='' @ str_int (returncode res) @ ''\<newline>stdout:\<newline>'' @ strip (stdout res)
           @ ''\<newline>\<newline>stderr:\<newline>'' @ strip (stderr res))"
    by (simp add: run_shell_tool_def run_subprocess_def WORK_DIR_def format_result_def)
qed

theorem run_shell_tool_never_raises_witness:
  "run_shell_tool echo_env ''rm -rf /'' = Inr ''Rejected: command not allowed by policy.''
   \<and> run_shell_tool unquoted_env ''echo \"hi'' = Inr ''Error running command: No closing quotation''
   \<and> run_shell_tool timeout_env ''python loop.py''
       = Inr ''Error running command: timed out after 30 seconds''
   \<and> run_shell_tool echo_env ''echo hi'' = Inr ''exit=0\<newline>stdout:\<newline>hi\<newline>\<newline>stderr:\<newline>''"
proof -
  have a: "\<not> command_allowed ''rm -rf /''"
    by (simp add: command_allowed_iff)
  have b: "command_allowed ''echo \"hi'' \<and> shlex_split unquoted_env ''echo \"hi'' = Inl ''No closing quotation''"
    by (simp add: command_allowed_iff unquoted_env_def)
  have c: "command_allowed ''python loop.py''
      \<and> shlex_split timeout_env ''python loop.py'' = Inr [''python loop.py'']
      \<and> subprocess_run timeout_env [''python loop.py''] ''workspace'' 30 = Inl ''timed out after 30 seconds''"
    by (simp add: command_allowed_iff timeout_env_def)
  have d: "command_allowed ''echo hi''
      \<and> shlex_split echo_env ''echo hi'' = Inr [''echo'', ''hi'']
      \<and> subprocess_run echo_env [''echo'', ''hi''] ''workspace'' 30
          = Inr \<lparr>returncode = 0, stdout = ''hi\<newline>'', stderr = []\<rparr>"
    by (simp add: command_allowed_iff echo_env_def)
  show ?thesis
    using a b c d
      run_shell_tool_never_raises [where env = echo_env and command = "''rm -rf /''"]
      run_shell_tool_never_raises [where env = unquoted_env and command = "''echo \"hi''"
        and e = "''No closing quotation''"]
      run_shell_tool_never_raises [where env = timeout_env and command = "''python loop.py''"
        and argv = "[''python loop.py'']" and e = "''timed out after 30 seconds''"]
      run_shell_tool_never_raises [where env = echo_env and command = "''echo hi''"
        and argv = "[''echo'', ''hi'']"
        and res = "\<lparr>returncode = 0, stdout = ''hi\<newline>'', stderr = []\<rparr>"]
    by (simp add: strip_def isspace_def str_int_def digit_char_def)
qed

text \<open>
  Claim C10: the entries \<open>ls\<close> and \<open>pytest\<close> of the allowlist end in no space, so every
  command that begins with these letters passes the check, \<open>lsblk /dev\<close> and
  \<open>pytest-bench x\<close> among them, and execution proceeds: the command is split by
  \<open>shlex.split\<close>, \<open>subprocess.run\<close> is called on the resulting argument vector with the
  working directory \<open>workspace\<close> and the timeout 30, and what the tool returns is the
  formatted outcome of that call. A command is accepted exactly when one of the five
  literal prefixes opens its text.
\<close>

theorem bare_prefixes_accept_longer_names:
  "command_allowed (''ls'' @ rest)
   \<and> command_allowed (''pytest'' @ rest)
   \<and> command_allowed ''lsblk /dev''
   \<and> command_allowed ''pytest-bench x''
   \<and> run_shell_tool env (''ls'' @ rest) \<noteq> Inr ''Rejected: command not allowed by policy.''
   \<and> run_shell_tool env (''pytest'' @ rest) \<noteq> Inr ''Rejected: command not allowed by policy.''
   \<and> (c = ''ls'' @ rest \<or> c = ''pytest'' @ rest \<longrightarrow>
        run_shell_tool env c =
          (case shlex_split env c of
             Inl e \<Rightarrow> Inr (''Error running command: '' @ e)
           | Inr argv \<Rightarrow>
               (case subprocess_run env argv ''workspace'' 30 of
                  Inl e \<Rightarrow> Inr (''Error running command: '' @ e)
                | Inr res \<Rightarrow>
                    Inr (''exit='' @ str_int (returncode res) @ ''\<newline>stdout:\<newline>''
                         @ strip (stdout res) @ ''\<newline>\<newline>stderr:\<newline>'' @ strip (stderr res)))))
   \<and> (command_allowed c =
        (prefix ''echo '' c \<or> prefix ''python '' c \<or> prefix ''pytest'' c
          \<or> prefix ''ls'' c \<or> prefix ''cat '' c))"
proof -
  have ls: "command_allowed (''ls'' @ rest)"
    by (simp add: command_allowed_iff)
  have pytest: "command_allowed (''pytest'' @ rest)"
    by (simp add: command_allowed_iff)
  have lsblk: "command_allowed ''lsblk /dev''"
    by (simp add: command_allowed_iff)
  have bench: "command_allowed ''pytest-bench x''"
    by (simp add: command_allowed_iff)
  have runs: "run_shell_tool env c =
          (case shlex_split env c of
             Inl e \<Rightarrow> Inr (''Error running command: '' @ e)
           | Inr argv \<Rightarrow>
               (case subprocess_run env argv ''workspace'' 30 of
                  Inl e \<Rightarrow> Inr (''Error running command: '' @ e)
                | Inr res \<Rightarrow>
                    Inr (''exit='' @ str_int (returncode res) @ ''\<newline>stdout:\<newline>''
                         @ strip (stdout res) @ ''\<newline>\<newline>stderr:\<newline>'' @ strip (stderr res))))"
    if "c = ''ls'' @ rest \<or> c = ''pytest'' @ rest"
  proof -
    from that ls pytest have "command_allowed c" by blast
    then show ?thesis
      by (simp add: run_shell_tool_def run_subprocess_def format_result_def WORK_DIR_def
          split: sum.splits)
  qed
  show ?thesis
    using ls pytest lsblk bench runs
      run_shell_tool_not_rejected [OF ls, of env] run_shell_tool_not_rejected [OF pytest, of env]
      command_allowed_iff [of c]
    by blast
qed

theorem bare_prefixes_accept_longer_names_witness:
  "run_shell_tool echo_env ''lsblk /dev'' = Inr ''exit=0\<newline>stdout:\<newline>/dev\<newline>\<newline>stderr:\<newline>''
   \<and> run_shell_tool timeout_env ''pytest-bench x''
       = Inr ''Error running command: timed out after 30 seconds''"
proof -
  have a: "''lsblk /dev'' = ''ls'' @ ''blk /dev'' \<or> ''lsblk /dev'' = ''pytest'' @ ''blk /dev''"
    by simp
  have b: "''pytest-bench x'' = ''ls'' @ ''-bench x'' \<or> ''pytest-bench x'' = ''pytest'' @ ''-bench x''"
    by simp
  have split: "shlex_split echo_env ''lsblk /dev'' = Inr [''lsblk'', ''/dev'']"
    by (simp add: echo_env_def)
  have run: "subprocess_run echo_env [''lsblk'', ''/dev''] ''workspace'' 30
      = Inr \<lparr>returncode = 0, stdout = ''/dev\<newline>'', stderr = []\<rparr>"
    by (simp add: echo_env_def)
  from a bare_prefixes_accept_longer_names [where c = "''lsblk /dev''" and rest = "''blk /dev''"
      and env = echo_env]
  have first: "run_shell_tool echo_env ''lsblk /dev''
      = Inr ''exit=0\<newline>stdout:\<newline>/dev\<newline>\<newline>stderr:\<newline>''"
    by (simp add: split run strip_def isspace_def str_int_def digit_char_def)
  from b bare_prefixes_accept_longer_names [where c = "''pytest-bench x''"
      and rest = "''-bench x''" and env = timeout_env]
  have second: "run_shell_tool timeout_env ''pytest-bench x''
      = Inr ''Error running command: timed out after 30 seconds''"
    by (simp add: timeout_env_def)
  from first second show ?thesis by blast
qed


section \<open>Extraction\<close>

lemmas text_eval =
  startswith_def fence_def is_tag_char_def strip_def isspace_def lower_def lower_char_def
  is_linebreak_def match_here_def

lemma extract_app_py:
  "extract_code_block ''```\<newline># file: app.py\<newline>print(1)\<newline>```''
     = Inr [''filename'' \<mapsto> Some ''app.py'', ''code'' \<mapsto> Some ''print(1)'']"
  by (simp add: extract_code_block_def text_eval)

text \<open>
  Claim C2, as the spec states it, gives the body \<open>print(1)\<close> with its line feed. The body
  that comes back has none: the lines after the filename line are joined with line feeds,
  and the join puts nothing after the last line.
\<close>

theorem extract_keeps_newline_counterexample:
  "extract_code_block ''```\<newline># file: app.py\<newline>print(1)\<newline>```''
     \<noteq> Inr [''filename'' \<mapsto> Some ''app.py'', ''code'' \<mapsto> Some ''print(1)\<newline>'']"
proof
  assume "extract_code_block ''```\<newline># file: app.py\<newline>print(1)\<newline>```''
     = Inr [''filename'' \<mapsto> Some ''app.py'', ''code'' \<mapsto> Some ''print(1)\<newline>'']"
  then have "[''filename'' \<mapsto> Some ''app.py'', ''code'' \<mapsto> Some ''print(1)'']
     = [''filename'' \<mapsto> Some ''app.py'', ''code'' \<mapsto> Some ''print(1)\<newline>'']"
    by (simp add: extract_app_py)
  then have "[''filename'' \<mapsto> Some ''app.py'', ''code'' \<mapsto> Some ''print(1)''] ''code''
     = [''filename'' \<mapsto> Some ''app.py'', ''code'' \<mapsto> Some ''print(1)\<newline>''] ''code''"
    by (rule arg_cong)
  then show False by simp
qed

text \<open>
  Claim C2, amended: for the fenced block whose first line is \<open># file: app.py\<close> and whose
  second line is \<open>print(1)\<close>, \<open>extract_code_block\<close> returns the filename \<open>app.py\<close> and the
  body \<open>print(1)\<close>, the filename line stripped and no line feed after the last line.
\<close>

theorem extract_filename_example:
  "extract_code_block ''```\<newline># file: app.py\<newline>print(1)\<newline>```''
     = Inr [''filename'' \<mapsto> Some ''app.py'', ''code'' \<mapsto> Some ''print(1)'']
   \<and> get [''filename'' \<mapsto> Some ''app.py'', ''code'' \<mapsto> Some ''print(1)''] ''filename''
       = Some ''app.py''
   \<and> get [''filename'' \<mapsto> Some ''app.py'', ''code'' \<mapsto> Some ''print(1)''] ''code''
       = Some ''print(1)''"
  by (simp add: extract_code_block_def text_eval get_def)

lemma match_here_prefix: "match_here s = Some g \<Longrightarrow> prefix fence s"
  by (simp add: match_here_def startswith_def split: if_splits)

lemma re_search_sublist: "re_search s = Some g \<Longrightarrow> sublist fence s"
proof (induction s)
  case Nil
  then show ?case by simp
next
  case (Cons c cs)
  show ?case
  proof (cases "match_here (c # cs)")
    case None
    with Cons show ?thesis by (simp add: sublist_Cons_right)
  next
    case (Some a)
    then have "prefix fence (c # cs)" by (rule match_here_prefix)
    then show ?thesis by (rule prefix_imp_sublist)
  qed
qed

text \<open>
  Claim C7: a text in which three backticks nowhere stand in a row yields the dictionary
  with the single entry \<open>code\<close>, bound to the empty string; its filename is absent, and the
  result is returned, not raised.
\<close>

theorem no_fence_gives_empty_artifact:
  "\<not> sublist ''```'' reply \<Longrightarrow>
     extract_code_block reply = Inr [''code'' \<mapsto> Some []]
     \<and> get [''code'' \<mapsto> Some []] ''code'' = Some []
     \<and> get [''code'' \<mapsto> Some []] ''filename'' = None"
  using re_search_sublist [of reply]
  by (cases "re_search reply") (auto simp: extract_code_block_def fence_def get_def)

theorem no_fence_gives_empty_artifact_witness:
  "\<not> sublist ''```'' ''The plan has `two` steps.''
   \<and> extract_code_block ''The plan has `two` steps.'' = Inr [''code'' \<mapsto> Some []]
   \<and> get [''code'' \<mapsto> Some []] ''code'' = Some []
   \<and> get [''code'' \<mapsto> Some []] ''filename'' = None"
proof -
  have h: "\<not> sublist ''```'' ''The plan has `two` steps.''"
    by (simp add: sublist_Cons_right)
  show ?thesis
    using h no_fence_gives_empty_artifact [OF h] by simp
qed


subsection \<open>The lazy group\<close>

lemma prefix_fence_iff: "prefix fence s \<longleftrightarrow> take 3 s = fence"
proof
  assume "prefix fence s"
  then obtain r where "s = fence @ r" by (auto simp: prefix_def)
  then show "take 3 s = fence" by (simp add: fence_def)
next
  assume "take 3 s = fence"
  then have "s = fence @ drop 3 s" by (metis append_take_drop_id)
  then show "prefix fence s" by (metis prefixI)
qed

lemma lazy_group_shape: "lazy_group b = Some g \<Longrightarrow> \<exists>r. b = g @ fence @ r"
proof (induction b arbitrary: g)
  case Nil
  then show ?case by simp
next
  case (Cons c cs)
  show ?case
  proof (cases "prefix fence (c # cs)")
    case True
    with Cons.prems have "g = []" by (simp add: startswith_def)
    with True show ?thesis by (auto simp: prefix_def)
  next
    case False
    with Cons.prems obtain g' where g': "lazy_group cs = Some g'" "g = c # g'"
      by (auto simp: startswith_def)
    from Cons.IH [OF g'(1)] obtain r where "cs = g' @ fence @ r" by blast
    with g'(2) show ?thesis by simp
  qed
qed

lemma lazy_group_again: "lazy_group b = Some g \<Longrightarrow> lazy_group (g @ fence @ r) = Some g"
proof (induction b arbitrary: g)
  case Nil
  then show ?case by simp
next
  case (Cons c cs)
  show ?case
  proof (cases "prefix fence (c # cs)")
    case True
    with Cons.prems have "g = []" by (simp add: startswith_def)
    then show ?thesis by (simp add: startswith_def fence_def)
  next
    case False
    with Cons.prems obtain g' where g': "lazy_group cs = Some g'" "g = c # g'"
      by (auto simp: startswith_def)
    from lazy_group_shape [OF g'(1)] obtain r0 where cs: "cs = g' @ fence @ r0" by blast
    have "take 3 (c # g' @ fence @ r) = take 3 (c # g' @ fence @ r0)"
      by (cases g'; cases "tl g'") (auto simp: fence_def)
    with False cs have "\<not> prefix fence (c # g' @ fence @ r)"
      by (simp add: prefix_fence_iff)
    with Cons.IH [OF g'(1)] g'(2) show ?thesis
      by (simp add: startswith_def)
  qed
qed

lemma lazy_group_no_fence: "lazy_group b = Some g \<Longrightarrow> \<not> sublist fence g"
proof (induction b arbitrary: g)
  case Nil
  then show ?case by simp
next
  case (Cons c cs)
  show ?case
  proof (cases "prefix fence (c # cs)")
    case True
    with Cons.prems have "g = []" by (simp add: startswith_def)
    then show ?thesis by (simp add: fence_def)
  next
    case False
    with Cons.prems obtain g' where g': "lazy_group cs = Some g'" "g = c # g'"
      by (auto simp: startswith_def)
    from lazy_group_shape [OF g'(1)] obtain r0 where cs: "cs = g' @ fence @ r0" by blast
    have "\<not> prefix fence (c # g')"
    proof
      assume "prefix fence (c # g')"
      then have "prefix fence ((c # g') @ fence @ r0)"
        using prefix_prefix by blast
      with False cs show False by simp
    qed
    with Cons.IH [OF g'(1)] g'(2) show ?thesis
      by (simp add: sublist_Cons_right)
  qed
qed

lemma re_search_group: "re_search s = Some g \<Longrightarrow> \<exists>b. lazy_group b = Some g"
proof (induction s)
  case Nil
  then show ?case by simp
next
  case (Cons c cs)
  show ?case
  proof (cases "match_here (c # cs)")
    case None
    with Cons show ?thesis by simp
  next
    case (Some a)
    with Cons.prems have "match_here (c # cs) = Some g" by simp
    then show ?thesis
      by (auto simp: match_here_def split: if_splits list.splits)
  qed
qed

lemma lazy_group_clean:
  "\<not> sublist fence s \<Longrightarrow> s = [] \<or> last s \<noteq> CHR 0x60 \<Longrightarrow>
   lazy_group (s @ fence @ r) = Some s"
proof (induction s)
  case Nil
  then show ?case by (simp add: startswith_def fence_def)
next
  case (Cons c cs)
  have nf: "\<not> prefix fence (c # cs)" and ns: "\<not> sublist fence cs"
    using Cons.prems(1) by (auto simp: sublist_Cons_right)
  have lst: "cs = [] \<or> last cs \<noteq> CHR 0x60"
    using Cons.prems(2) by auto
  have "\<not> prefix fence (c # cs @ fence @ r)"
  proof (cases cs)
    case Nil
    with Cons.prems(2) show ?thesis by (simp add: fence_def)
  next
    case (Cons d ds)
    show ?thesis
    proof (cases ds)
      case Nil
      with Cons lst show ?thesis by (simp add: fence_def)
    next
      case (Cons e es)
      with \<open>cs = d # ds\<close> nf show ?thesis by (simp add: fence_def)
    qed
  qed
  with Cons.IH [OF ns lst] show ?case
    by (simp add: startswith_def)
qed

lemma re_search_wrapped:
  "lazy_group (s @ fence) = Some s \<Longrightarrow> re_search (fence @ CHR 0x0A # s @ fence) = Some s"
  by (simp add: fence_def match_here_def startswith_def is_tag_char_def)

subsection \<open>Lines\<close>

lemma sublist_across:
  assumes "c \<notin> set xs" and "sublist xs (a @ c # b)"
  shows "sublist xs a \<or> sublist xs b"
proof -
  from assms(2) consider "sublist xs a" | "sublist xs (c # b)"
    | xs1 xs2 where "xs = xs1 @ xs2" "suffix xs1 a" "prefix xs2 (c # b)"
    by (auto simp: sublist_append)
  then show ?thesis
  proof cases
    case 1
    then show ?thesis by simp
  next
    case 2
    then have "prefix xs (c # b) \<or> sublist xs b"
      by (simp add: sublist_Cons_right)
    moreover have "xs = []" if "prefix xs (c # b)"
      using that assms(1) by (cases xs) auto
    ultimately show ?thesis by auto
  next
    case 3
    have "xs2 = []"
      using 3(1,3) assms(1) by (cases xs2) auto
    with 3 have "suffix xs a" by simp
    then show ?thesis by auto
  qed
qed

lemma is_linebreak_CR_LF: "is_linebreak (CHR 0x0D)" "is_linebreak (CHR 0x0A)"
  by (simp_all add: is_linebreak_def)

lemma splitlines_line_feed:
  "\<forall>c \<in> set h. \<not> is_linebreak c \<Longrightarrow> splitlines (h @ CHR 0x0A # rest) = h # splitlines rest"
proof (induction h)
  case Nil
  show ?case by (cases rest) (simp_all add: is_linebreak_def)
next
  case (Cons c h)
  then have c: "\<not> is_linebreak c" and ih: "splitlines (h @ CHR 0x0A # rest) = h # splitlines rest"
    by simp_all
  obtain d ds where "h @ CHR 0x0A # rest = d # ds"
    by (cases h) auto
  with c ih show ?case by (auto simp: is_linebreak_CR_LF)
qed

lemma splitlines_nonempty: "s \<noteq> [] \<Longrightarrow> splitlines s \<noteq> []"
  by (induction s rule: splitlines.induct) (auto split: list.splits)

lemma splitlines_single:
  "\<forall>c \<in> set x. \<not> is_linebreak c \<Longrightarrow> x \<noteq> [] \<Longrightarrow> splitlines x = [x]"
proof (induction x rule: splitlines.induct)
  case 1
  then show ?case by simp
next
  case (2 c)
  then show ?case by simp
next
  case (3 c d cs)
  then show ?case by (auto simp: is_linebreak_CR_LF)
qed

lemma splitlines_lines:
  "splitlines s = l # ls \<Longrightarrow>
     prefix l s \<and> (\<forall>m \<in> set (l # ls). \<forall>c \<in> set m. \<not> is_linebreak c)
       \<and> (\<forall>m \<in> set ls. sublist m s)"
proof (induction s arbitrary: l ls rule: splitlines.induct)
  case 1
  then show ?case by simp
next
  case (2 c)
  then show ?case by (auto split: if_splits)
next
  case (3 c d cs)
  show ?case
  proof (cases "c = CHR 0x0D \<and> d = CHR 0x0A")
    case True
    with "3.prems" have l: "l = []" and ls: "splitlines cs = ls" by simp_all
    show ?thesis
    proof (cases ls)
      case Nil
      with l show ?thesis by simp
    next
      case (Cons m ms)
      from "3.IH"(1) [OF True, of m ms] ls Cons
      have "prefix m cs" "\<forall>x \<in> set (m # ms). \<forall>c \<in> set x. \<not> is_linebreak c"
        "\<forall>x \<in> set ms. sublist x cs"
        by simp_all
      with l Cons show ?thesis
        by (auto simp: sublist_Cons_right)
    qed
  next
    case False
    show ?thesis
    proof (cases "is_linebreak c")
      case True
      with False "3.prems" have l: "l = []" and ls: "splitlines (d # cs) = ls" by auto
      show ?thesis
      proof (cases ls)
        case Nil
        with l show ?thesis by simp
      next
        case (Cons m ms)
        from "3.IH"(2) [OF False True, of m ms] ls Cons
        have "prefix m (d # cs)" "\<forall>x \<in> set (m # ms). \<forall>c \<in> set x. \<not> is_linebreak c"
          "\<forall>x \<in> set ms. sublist x (d # cs)"
          by simp_all
        with l Cons show ?thesis
          by (auto simp: sublist_Cons_right)
      qed
    next
      case nb: False
      have ne: "splitlines (d # cs) \<noteq> []"
        by (rule splitlines_nonempty) simp
      then obtain m ms where m: "splitlines (d # cs) = m # ms"
        by (cases "splitlines (d # cs)") auto
      with False nb "3.prems" have l: "l = c # m" and ls: "ls = ms" by auto
      from "3.IH"(3) [OF False nb m]
      have "prefix m (d # cs)" "\<forall>x \<in> set (m # ms). \<forall>c \<in> set x. \<not> is_linebreak c"
        "\<forall>x \<in> set ms. sublist x (d # cs)"
        by simp_all
      with l ls nb show ?thesis
        by (auto simp: sublist_Cons_right)
    qed
  qed
qed

lemma join_cons: "ys \<noteq> [] \<Longrightarrow> join sep (x # ys) = x @ sep @ join sep ys"
  by (cases ys) auto

lemma join_splitlines_join:
  "\<forall>m \<in> set L. \<forall>c \<in> set m. \<not> is_linebreak c \<Longrightarrow>
   join [CHR 0x0A] L = [] \<or> last (join [CHR 0x0A] L) \<noteq> CHR 0x0A \<Longrightarrow>
   join [CHR 0x0A] (splitlines (join [CHR 0x0A] L)) = join [CHR 0x0A] L"
proof (induction L rule: induct_list012)
  case 1
  then show ?case by simp
next
  case (2 x)
  show ?case
  proof (cases "x = []")
    case True
    then show ?thesis by simp
  next
    case False
    with "2.prems"(1) have "splitlines x = [x]"
      by (intro splitlines_single) auto
    then show ?thesis by simp
  qed
next
  case (3 x y ys)
  let ?rest = "join [CHR 0x0A] (y # ys)"
  have x: "\<forall>c \<in> set x. \<not> is_linebreak c" and tl: "\<forall>m \<in> set (y # ys). \<forall>c \<in> set m. \<not> is_linebreak c"
    using "3.prems"(1) by simp_all
  have rest_ne: "?rest \<noteq> []"
    using "3.prems"(2) by auto
  have rest_last: "?rest = [] \<or> last ?rest \<noteq> CHR 0x0A"
    using "3.prems"(2) rest_ne by auto
  have sp: "splitlines (x @ CHR 0x0A # ?rest) = x # splitlines ?rest"
    by (rule splitlines_line_feed [OF x])
  have "splitlines ?rest \<noteq> []"
    by (rule splitlines_nonempty [OF rest_ne])
  then have "join [CHR 0x0A] (x # splitlines ?rest) = x @ [CHR 0x0A] @ join [CHR 0x0A] (splitlines ?rest)"
    by (rule join_cons)
  with sp "3.IH"(2) [OF tl rest_last] show ?case by simp
qed

lemma join_no_fence:
  "\<forall>m \<in> set L. \<not> sublist fence m \<Longrightarrow> \<not> sublist fence (join [CHR 0x0A] L)"
proof (induction L rule: induct_list012)
  case 1
  then show ?case by (simp add: fence_def)
next
  case (2 x)
  then show ?case by simp
next
  case (3 x y ys)
  have "CHR 0x0A \<notin> set fence" by (simp add: fence_def)
  from sublist_across [OF this, of x "join [CHR 0x0A] (y # ys)"] 3 show ?case
    by auto
qed

subsection \<open>Stripping\<close>

lemma rev_dropWhile_rev_prefix: "\<exists>z. y = rev (dropWhile P (rev y)) @ z"
proof -
  have "rev (dropWhile P (rev y)) @ rev (takeWhile P (rev y))
      = rev (takeWhile P (rev y) @ dropWhile P (rev y))"
    by (simp only: rev_append)
  also have "\<dots> = rev (rev y)"
    by (simp only: takeWhile_dropWhile_id)
  finally have "y = rev (dropWhile P (rev y)) @ rev (takeWhile P (rev y))"
    by simp
  then show ?thesis by blast
qed

lemma strip_inside: "\<exists>a z. s = a @ strip s @ z"
proof -
  obtain z where z: "dropWhile isspace s = strip s @ z"
    using rev_dropWhile_rev_prefix [of "dropWhile isspace s" isspace] by (auto simp: strip_def)
  have "s = takeWhile isspace s @ dropWhile isspace s" by simp
  with z have "s = takeWhile isspace s @ strip s @ z" by simp
  then show ?thesis by blast
qed

lemma strip_sublist: "sublist (strip s) s"
  using strip_inside [of s] by (auto simp: sublist_def)

lemma strip_ends: "strip s = [] \<or> (\<not> isspace (hd (strip s)) \<and> \<not> isspace (last (strip s)))"
proof (cases "strip s = []")
  case True
  then show ?thesis by simp
next
  case False
  let ?y = "dropWhile isspace s"
  let ?d = "dropWhile isspace (rev ?y)"
  have s: "strip s = rev ?d" by (simp add: strip_def)
  with False have d: "?d \<noteq> []" by simp
  then have "\<not> isspace (hd ?d)" by (rule hd_dropWhile)
  then have last: "\<not> isspace (last (strip s))"
    using d s by (simp add: last_rev)
  obtain z where z: "?y = strip s @ z"
    using rev_dropWhile_rev_prefix [of ?y isspace] by (auto simp: strip_def)
  with False have y: "?y \<noteq> []" and "hd ?y = hd (strip s)" by auto
  moreover from y have "\<not> isspace (hd ?y)" by (rule hd_dropWhile)
  ultimately have "\<not> isspace (hd (strip s))" by simp
  with last show ?thesis by simp
qed

lemma strip_fixed:
  "n = [] \<or> (\<not> isspace (hd n) \<and> \<not> isspace (last n)) \<Longrightarrow> strip n = n"
proof (cases "n = []")
  case True
  then show ?thesis by (simp add: strip_def)
next
  case False
  assume "n = [] \<or> (\<not> isspace (hd n) \<and> \<not> isspace (last n))"
  with False have h: "\<not> isspace (hd n)" and l: "\<not> isspace (last n)" by simp_all
  from False h have 1: "dropWhile isspace n = n" by (cases n) auto
  from False obtain ys y where n: "n = ys @ [y]"
    by (cases n rule: rev_cases) auto
  with l have 2: "dropWhile isspace (rev n) = rev n" by simp
  from 1 2 show ?thesis by (simp add: strip_def)
qed

lemma strip_space_cons: "isspace w \<Longrightarrow> strip (w # s) = strip s"
  by (simp add: strip_def)

lemma strip_header:
  "n = [] \<or> (\<not> isspace (hd n) \<and> \<not> isspace (last n)) \<Longrightarrow>
   strip (''# file: '' @ n) = (if n = [] then ''# file:'' else ''# file: '' @ n)"
proof (cases "n = []")
  case True
  then show ?thesis by (simp add: strip_def isspace_def)
next
  case False
  assume "n = [] \<or> (\<not> isspace (hd n) \<and> \<not> isspace (last n))"
  with False have "\<not> isspace (last (''# file: '' @ n))" by simp
  moreover have "\<not> isspace (hd (''# file: '' @ n))" by (simp add: isspace_def)
  ultimately have "strip (''# file: '' @ n) = ''# file: '' @ n"
    by (intro strip_fixed) simp
  with False show ?thesis by simp
qed

lemma split1_parts: "split1 sep s = a # b # r \<Longrightarrow> s = a @ sep # b"
proof (induction s arbitrary: a b r)
  case Nil
  then show ?case by simp
next
  case (Cons c cs)
  show ?case
  proof (cases "c = sep")
    case True
    with Cons.prems show ?thesis by simp
  next
    case False
    with Cons.prems obtain l ls where l: "split1 sep cs = l # ls" "a = c # l" "b # r = ls"
      by (auto split: list.splits)
    then obtain r' where "split1 sep cs = l # b # r'" by auto
    from Cons.IH [OF this] l(2) show ?thesis by simp
  qed
qed

lemma split1_header: "split1 (CHR '':'') (''# file:'' @ r) = [''# file'', r]"
  by simp

lemma lower_header: "startswith (lower (''# file:'' @ r)) ''# file:''"
  by (simp add: startswith_def lower_def lower_char_def)

subsection \<open>Extraction, case by case\<close>

lemma extract_plain:
  "re_search t = Some g \<Longrightarrow>
   g = [] \<or> (\<exists>l ls. splitlines g = l # ls \<and> \<not> startswith (lower (strip l)) ''# file:'') \<Longrightarrow>
   extract_code_block t = Inr [''filename'' \<mapsto> None, ''code'' \<mapsto> Some g]"
  by (auto simp: extract_code_block_def startswith_def lower_def)

lemma extract_named:
  "re_search t = Some g \<Longrightarrow> g \<noteq> [] \<Longrightarrow> splitlines g = l # ls \<Longrightarrow>
   startswith (lower (strip l)) ''# file:'' \<Longrightarrow>
   split1 (CHR '':'') (strip l) = a # b # r \<Longrightarrow>
   extract_code_block t
     = Inr [''filename'' \<mapsto> Some (strip b), ''code'' \<mapsto> Some (join [CHR 0x0A] ls)]"
  by (simp add: extract_code_block_def)

lemma extract_empty_fences:
  "extract_code_block (fence @ CHR 0x0A # fence) = Inr [''filename'' \<mapsto> None, ''code'' \<mapsto> Some []]"
  by (simp add: extract_code_block_def text_eval)

lemma reextract_plain:
  assumes "lazy_group b = Some g"
    and "g = [] \<or> (\<exists>l ls. splitlines g = l # ls \<and> \<not> startswith (lower (strip l)) ''# file:'')"
  shows "extract_code_block (reconstructed_text [''filename'' \<mapsto> None, ''code'' \<mapsto> Some g])
     = Inr [''filename'' \<mapsto> None, ''code'' \<mapsto> Some g]"
proof -
  have "lazy_group (g @ fence @ []) = Some g"
    by (rule lazy_group_again [OF assms(1)])
  then have "re_search (fence @ CHR 0x0A # g @ fence) = Some g"
    by (intro re_search_wrapped) simp
  moreover have "reconstructed_text [''filename'' \<mapsto> None, ''code'' \<mapsto> Some g]
      = fence @ CHR 0x0A # g @ fence"
    by (simp add: reconstructed_text_def get_def)
  ultimately show ?thesis
    using assms(2) by (simp add: extract_plain)
qed

lemma reextract_named:
  assumes name: "name = strip b"
    and name_lines: "\<forall>c \<in> set name. \<not> is_linebreak c"
    and name_fence: "\<not> sublist fence name"
    and lines: "\<forall>m \<in> set ls. \<forall>c \<in> set m. \<not> is_linebreak c"
    and lines_fence: "\<forall>m \<in> set ls. \<not> sublist fence m"
    and body: "body = join [CHR 0x0A] ls"
    and ends: "body = [] \<or> (last body \<noteq> CHR 0x0A \<and> last body \<noteq> CHR 0x60)"
  shows "extract_code_block (reconstructed_text [''filename'' \<mapsto> Some name, ''code'' \<mapsto> Some body])
     = Inr [''filename'' \<mapsto> Some name, ''code'' \<mapsto> Some body]"
proof -
  let ?h = "''# file: '' @ name"
  let ?g = "?h @ CHR 0x0A # body"
  have rebuilt: "reconstructed_text [''filename'' \<mapsto> Some name, ''code'' \<mapsto> Some body]
      = fence @ CHR 0x0A # ?g @ fence"
    by (simp add: reconstructed_text_def get_def)
  have body_fence: "\<not> sublist fence body"
    unfolding body by (rule join_no_fence [OF lines_fence])
  have "\<not> sublist fence ''# file:''"
    by (simp add: fence_def sublist_Cons_right)
  moreover have "CHR '' '' \<notin> set fence"
    by (simp add: fence_def)
  ultimately have "\<not> sublist fence (''# file:'' @ CHR '' '' # name)"
    using name_fence sublist_across [of "CHR '' ''" fence "''# file:''" name] by blast
  then have h_fence: "\<not> sublist fence ?h"
    by simp
  have "CHR 0x0A \<notin> set fence"
    by (simp add: fence_def)
  with h_fence body_fence have g_fence: "\<not> sublist fence ?g"
    using sublist_across [of "CHR 0x0A" fence ?h body] by blast
  have g_last: "?g = [] \<or> last ?g \<noteq> CHR 0x60"
    using ends by auto
  have "lazy_group (?g @ fence @ []) = Some ?g"
    by (rule lazy_group_clean [OF g_fence g_last])
  then have search: "re_search (fence @ CHR 0x0A # ?g @ fence) = Some ?g"
    by (intro re_search_wrapped) simp
  have h_lines: "\<forall>c \<in> set ?h. \<not> is_linebreak c"
    using name_lines by (auto simp: is_linebreak_def)
  have split: "splitlines ?g = ?h # splitlines body"
    by (rule splitlines_line_feed [OF h_lines])
  have stripped: "name = [] \<or> (\<not> isspace (hd name) \<and> \<not> isspace (last name))"
    unfolding name by (rule strip_ends)
  have first: "strip ?h = (if name = [] then ''# file:'' else ?h)"
    by (rule strip_header [OF stripped])
  obtain rest where rest: "strip ?h = ''# file:'' @ rest" "strip rest = name"
  proof (cases "name = []")
    case True
    with first have "strip ?h = ''# file:'' @ []" "strip [] = name"
      by (simp_all add: strip_def)
    then show ?thesis by (rule that)
  next
    case False
    have "strip (CHR '' '' # name) = strip name"
      by (rule strip_space_cons) (simp add: isspace_def)
    also have "\<dots> = name"
      by (rule strip_fixed [OF stripped])
    finally have "strip (CHR '' '' # name) = name" .
    moreover from False first have "strip ?h = ''# file:'' @ CHR '' '' # name"
      by simp
    ultimately show ?thesis using that by blast
  qed
  have starts: "startswith (lower (strip ?h)) ''# file:''"
    unfolding rest(1) by (rule lower_header)
  have parts: "split1 (CHR '':'') (strip ?h) = ''# file'' # rest # []"
    unfolding rest(1) by (rule split1_header)
  have ends': "join [CHR 0x0A] ls = [] \<or> last (join [CHR 0x0A] ls) \<noteq> CHR 0x0A"
    using ends unfolding body by blast
  have "join [CHR 0x0A] (splitlines body) = body"
    unfolding body by (rule join_splitlines_join [OF lines ends'])
  moreover have "extract_code_block (fence @ CHR 0x0A # ?g @ fence)
      = Inr [''filename'' \<mapsto> Some (strip rest),
             ''code'' \<mapsto> Some (join [CHR 0x0A] (splitlines body))]"
    by (rule extract_named [OF search _ split starts parts]) simp
  ultimately show ?thesis
    by (simp add: rebuilt rest(2))
qed

lemma sublist_chain: "sublist a b \<Longrightarrow> sublist b c \<Longrightarrow> sublist a c"
proof -
  assume "sublist a b" "sublist b c"
  then obtain p s q r where "b = p @ a @ s" "c = q @ b @ r"
    by (auto simp: sublist_def)
  then have "c = (q @ p) @ a @ (s @ r)" by simp
  then show ?thesis unfolding sublist_def by blast
qed

lemma extract_reconstruct_same:
  assumes ex: "extract_code_block t = Inr d"
    and b: "get d ''code'' = Some body"
    and pre: "get d ''filename'' = None \<or> body = []
        \<or> (last body \<noteq> CHR 0x0A \<and> last body \<noteq> CHR 0x60)"
  shows "\<exists>d'. extract_code_block (reconstructed_text d) = Inr d'
      \<and> get d' ''filename'' = get d ''filename'' \<and> get d' ''code'' = Some body"
proof (cases "re_search t")
  case None
  with ex have d: "d = [''code'' \<mapsto> Some []]"
    by (simp add: extract_code_block_def)
  with b have "body = []" by (simp add: get_def)
  moreover from d have "reconstructed_text d = fence @ CHR 0x0A # fence"
    by (simp add: reconstructed_text_def get_def)
  ultimately show ?thesis
    using d by (simp add: extract_empty_fences get_def)
next
  case (Some g)
  from re_search_group [OF Some] obtain blk where blk: "lazy_group blk = Some g"
    by blast
  have g_fence: "\<not> sublist fence g"
    by (rule lazy_group_no_fence [OF blk])
  show ?thesis
  proof (cases "g = [] \<or> (\<exists>l ls. splitlines g = l # ls \<and> \<not> startswith (lower (strip l)) ''# file:'')")
    case True
    from extract_plain [OF Some True] ex
    have d: "d = [''filename'' \<mapsto> None, ''code'' \<mapsto> Some g]" by simp
    with b have "body = g" by (simp add: get_def)
    with d reextract_plain [OF blk True] show ?thesis
      by (simp add: get_def)
  next
    case False
    then have g: "g \<noteq> []" by simp
    then obtain l ls where l: "splitlines g = l # ls"
      using splitlines_nonempty [of g] by (cases "splitlines g") auto
    with False have starts: "startswith (lower (strip l)) ''# file:''" by simp
    from splitlines_lines [OF l] have l_prefix: "prefix l g"
      and l_lines: "\<forall>c \<in> set l. \<not> is_linebreak c"
      and ls_lines: "\<forall>m \<in> set ls. \<forall>c \<in> set m. \<not> is_linebreak c"
      and ls_sub: "\<forall>m \<in> set ls. sublist m g"
      by simp_all
    obtain a p r where parts: "split1 (CHR '':'') (strip l) = a # p # r"
    proof (cases "split1 (CHR '':'') (strip l)")
      case Nil
      with Some g l starts ex show ?thesis
        by (simp add: extract_code_block_def)
    next
      case (Cons a ps)
      show ?thesis
      proof (cases ps)
        case Nil
        with Cons Some g l starts ex show ?thesis
          by (simp add: extract_code_block_def)
      next
        case (Cons p r)
        with \<open>split1 (CHR '':'') (strip l) = a # ps\<close> show ?thesis
          by (intro that) simp
      qed
    qed
    from extract_named [OF Some g l starts parts] ex
    have d: "d = [''filename'' \<mapsto> Some (strip p), ''code'' \<mapsto> Some (join [CHR 0x0A] ls)]"
      by simp
    with b have body: "body = join [CHR 0x0A] ls" by (simp add: get_def)
    from d pre b have ends: "body = [] \<or> (last body \<noteq> CHR 0x0A \<and> last body \<noteq> CHR 0x60)"
      by (simp add: get_def)
    from split1_parts [OF parts] have "strip l = a @ CHR '':'' # p" .
    then have "sublist p (strip l)"
      by (metis append_Cons append_Nil sublist_appendI append_assoc sublist_append_leftI)
    with strip_sublist [of p] have "sublist (strip p) (strip l)"
      by (rule sublist_chain)
    with strip_sublist [of l] have name_l: "sublist (strip p) l"
      by (rule sublist_chain [rotated])
    with l_prefix have name_g: "sublist (strip p) g"
      by (blast intro: sublist_chain)
    have name_lines: "\<forall>c \<in> set (strip p). \<not> is_linebreak c"
      using set_mono_sublist [OF name_l] l_lines by blast
    have name_fence: "\<not> sublist fence (strip p)"
      using name_g g_fence by (blast intro: sublist_chain)
    have ls_fence: "\<forall>m \<in> set ls. \<not> sublist fence m"
      using ls_sub g_fence by (blast intro: sublist_chain)
    from reextract_named [OF refl name_lines name_fence ls_lines ls_fence body ends] d body
    show ?thesis
      by (simp add: get_def)
  qed
qed

text \<open>
  Claim C8, as the spec states it, holds for every text with a non-empty artifact. It
  fails when a filename was extracted and the body ends in a line feed: the block
  \<open># file: app.py\<close>, \<open>print(1)\<close>, blank line gives the body \<open>print(1)\<close> with a line
  feed, and the reconstructed text gives the body without it. Putting the closing fence
  on a line of its own does not help: then a block without a filename line comes back
  with one more line feed.
\<close>

theorem extract_idempotent_counterexample:
  "extract_code_block ''```\<newline># file: app.py\<newline>print(1)\<newline>\<newline>```''
     = Inr [''filename'' \<mapsto> Some ''app.py'', ''code'' \<mapsto> Some ''print(1)\<newline>'']
   \<and> get [''filename'' \<mapsto> Some ''app.py'', ''code'' \<mapsto> Some ''print(1)\<newline>''] ''code''
       = Some ''print(1)\<newline>''
   \<and> extract_code_block
        (reconstructed_text [''filename'' \<mapsto> Some ''app.py'', ''code'' \<mapsto> Some ''print(1)\<newline>''])
       = Inr [''filename'' \<mapsto> Some ''app.py'', ''code'' \<mapsto> Some ''print(1)'']
   \<and> get [''filename'' \<mapsto> Some ''app.py'', ''code'' \<mapsto> Some ''print(1)''] ''code''
       = Some ''print(1)''
   \<and> extract_code_block ''```python\<newline>print(1)\<newline>```''
       = Inr [''filename'' \<mapsto> None, ''code'' \<mapsto> Some ''print(1)\<newline>'']
   \<and> extract_code_block
        (reconstructed_text_own_line [''filename'' \<mapsto> None, ''code'' \<mapsto> Some ''print(1)\<newline>''])
       = Inr [''filename'' \<mapsto> None, ''code'' \<mapsto> Some ''print(1)\<newline>\<newline>'']
   \<and> get [''filename'' \<mapsto> None, ''code'' \<mapsto> Some ''print(1)\<newline>\<newline>''] ''code''
       = Some ''print(1)\<newline>\<newline>''"
  by (simp add: extract_code_block_def reconstructed_text_def reconstructed_text_own_line_def
      get_def text_eval)

text \<open>
  Claim C8, amended: for every text whose artifact has no filename, or an empty body, or
  a body that ends in neither a line feed nor a backtick, re-extracting the reconstructed
  text (the opening fence and a line feed, the \<open># file:\<close> line when a filename was
  extracted, the body, the closing fence) yields the same filename and the same body.
\<close>

theorem extract_reconstruct_idempotent:
  "extract_code_block t = Inr d \<Longrightarrow>
   get d ''code'' = Some body \<Longrightarrow>
   get d ''filename'' = None \<or> body = []
     \<or> (last body \<noteq> CHR 0x0A \<and> last body \<noteq> CHR 0x60) \<Longrightarrow>
   \<exists>d'. extract_code_block (reconstructed_text d) = Inr d'
      \<and> get d' ''filename'' = get d ''filename'' \<and> get d' ''code'' = Some body"
  by (rule extract_reconstruct_same)

theorem extract_reconstruct_idempotent_witness:
  "extract_code_block ''```\<newline># file: app.py\<newline>print(1)\<newline>```''
     = Inr [''filename'' \<mapsto> Some ''app.py'', ''code'' \<mapsto> Some ''print(1)'']
   \<and> (\<exists>d'. extract_code_block
          (reconstructed_text [''filename'' \<mapsto> Some ''app.py'', ''code'' \<mapsto> Some ''print(1)''])
            = Inr d'
         \<and> get d' ''filename'' = Some ''app.py'' \<and> get d' ''code'' = Some ''print(1)'')"
proof -
  let ?d = "[''filename'' \<mapsto> Some ''app.py'', ''code'' \<mapsto> Some ''print(1)'']"
  have h1: "extract_code_block ''```\<newline># file: app.py\<newline>print(1)\<newline>```'' = Inr ?d"
    by (rule extract_app_py)
  have h2: "get ?d ''code'' = Some ''print(1)''"
    by (simp add: get_def)
  have h3: "get ?d ''filename'' = None \<or> ''print(1)'' = []
      \<or> (last ''print(1)'' \<noteq> CHR 0x0A \<and> last ''print(1)'' \<noteq> CHR 0x60)"
    by simp
  have "get ?d ''filename'' = Some ''app.py''"
    by (simp add: get_def)
  with h1 extract_reconstruct_idempotent [OF h1 h2 h3] show ?thesis
    by simp
qed


section \<open>The end of the driver\<close>

text \<open>
  Claim C9: when no message of the transcript carries the name Developer (in any
  letter case), the text handed to the extractor is empty and so is the artifact;
  \<open>save_generated_code\<close> answers \<open>No code found to save.\<close> and leaves the file tree as
  it was; the driver prints that answer and nothing else, reads no line from the
  operator, writes nothing, and raises nothing.
\<close>

theorem no_developer_message_is_graceful:
  "developer_messages messages = [] \<Longrightarrow>
     last_developer_text messages = Inr []
     \<and> extract_code_block [] = Inr [''code'' \<mapsto> Some []]
     \<and> save_generated_code (system w) (current_dir w) (files w) ts [''code'' \<mapsto> Some []]
         = (Inr ''No code found to save.'', files w)
     \<and> main_after_chat messages ts w
         = (Inr (), w\<lparr>printed := printed w @ [''No code found to save.'']\<rparr>)"
  by (simp add: last_developer_text_def extract_code_block_def save_generated_code_def
      main_after_chat_def get_def truthy_def print_def)

theorem no_developer_message_is_graceful_witness:
  "developer_messages
     [[''name'' \<mapsto> Some ''Human'', ''content'' \<mapsto> Some ''Build a CLI''],
      [''name'' \<mapsto> Some ''ProductManager'', ''content'' \<mapsto> Some ''Spec: reverse a string'']] = []
   \<and> main_after_chat
       [[''name'' \<mapsto> Some ''Human'', ''content'' \<mapsto> Some ''Build a CLI''],
        [''name'' \<mapsto> Some ''ProductManager'', ''content'' \<mapsto> Some ''Spec: reverse a string'']]
       ''20250830-083606''
       \<lparr>system = plain_platform home, current_dir = home, files = fresh_tree,
        printed = [], keyboard = [''y'']\<rparr>
     = (Inr (),
        \<lparr>system = plain_platform home, current_dir = home, files = fresh_tree,
         printed = [''No code found to save.''],
         keyboard = [''y'']\<rparr>)"
proof -
  have l1: "lower ''Human'' = ''human''"
    by code_simp
  have l2: "lower ''ProductManager'' = ''productmanager''"
    by code_simp
  have h: "developer_messages
     [[''name'' \<mapsto> Some ''Human'', ''content'' \<mapsto> Some ''Build a CLI''],
      [''name'' \<mapsto> Some ''ProductManager'', ''content'' \<mapsto> Some ''Spec: reverse a string'']] = []"
    by (simp add: developer_messages_def get_def truthy_def l1 l2)
  show ?thesis
    using h no_developer_message_is_graceful [OF h, of
        "\<lparr>system = plain_platform home, current_dir = home, files = fresh_tree,
          printed = [], keyboard = [''y'']\<rparr>"
        "''20250830-083606''"]
    by simp
qed


section \<open>The sandbox guard and the write tool\<close>

subsection \<open>Path lookups\<close>













subsection \<open>The guard\<close>

lemma in_parents_iff: "w \<in> set (parents p) \<longleftrightarrow> strict_prefix w p"
proof
  assume "w \<in> set (parents p)"
  then obtain k where k: "k < length p" "w = take k p"
    by (auto simp: parents_def)
  then have "prefix w p" "length w < length p"
    by (simp_all add: take_is_prefix)
  then show "strict_prefix w p"
    by (auto simp: strict_prefix_def)
next
  assume "strict_prefix w p"
  then obtain zs where zs: "p = w @ zs" "zs \<noteq> []"
    by (auto simp: strict_prefix_def prefix_def)
  then have "length w < length p" "w = take (length w) p"
    by simp_all
  then show "w \<in> set (parents p)"
    by (auto simp: parents_def)
qed

lemma safe_path_iff:
  "safe_path pf rel =
     (case resolve pf (joinpath (parse_path WORK_DIR) (parse_path rel)) of
        Inl e \<Rightarrow> Inl e
      | Inr p \<Rightarrow>
          (case sandbox_root pf of
             Inl e \<Rightarrow> Inl e
           | Inr w \<Rightarrow> if prefix w p then Inr p else Inl (ValueError ''Unsafe path.'')))"
  by (auto simp: safe_path_def in_parents_iff strict_prefix_def split: sum.splits)

lemma safe_path_inside:
  "safe_path pf rel = Inr p \<Longrightarrow>
     resolve pf (joinpath (parse_path WORK_DIR) (parse_path rel)) = Inr p
     \<and> (\<exists>w. sandbox_root pf = Inr w \<and> prefix w p)"
  by (auto simp: safe_path_iff split: sum.splits if_splits)




lemma write_outside_refused:
  assumes p: "resolve pf (joinpath (parse_path WORK_DIR) (parse_path name)) = Inr p"
    and w: "sandbox_root pf = Inr w"
    and out: "\<not> prefix w p"
  shows "name \<noteq> []
     \<and> safe_path pf name = Inl (ValueError ''Unsafe path.'')
     \<and> write_file_tool pf cwd fs (Some name) content
         = (if truthy content then Inl (ValueError ''Unsafe path.'')
            else Inr ''Error: Missing filename or content.'', fs)"
proof -
  have name: "name \<noteq> []"
  proof
    assume "name = []"
    then have "joinpath (parse_path WORK_DIR) (parse_path name) = parse_path WORK_DIR"
      by (simp add: joinpath_def parse_path_def startswith_def)
    with p w have "p = w"
      by (simp add: sandbox_root_def)
    with out show False by simp
  qed
  have safe: "safe_path pf name = Inl (ValueError ''Unsafe path.'')"
    using p w out by (simp add: safe_path_iff)
  show ?thesis
    using name safe
    by (cases content) (auto simp: write_file_tool_def truthy_def)
qed

lemma resolve_raises:
  "resolve pf (joinpath (parse_path WORK_DIR) (parse_path name)) = Inl e \<Longrightarrow>
   safe_path pf name = Inl e"
  by (simp add: safe_path_iff)

lemmas path_eval =
  safe_path_iff sandbox_root_def plain_platform_def linked_platform_def realpath_def
  joinpath_def parse_path_def WORK_DIR_def startswith_def home_def

lemma sandbox_root_plain: "sandbox_root (plain_platform cwd) = Inr (cwd @ [''workspace''])"
  by (simp add: path_eval)

lemma safe_path_escape:
  "safe_path (plain_platform cwd) ''../../etc/passwd'' = Inl (ValueError ''Unsafe path.'')"
proof -
  have "\<not> prefix (cwd @ [''workspace'']) (butlast cwd @ [''etc'', ''passwd''])"
  proof (cases cwd rule: rev_cases)
    case Nil
    then show ?thesis by simp
  next
    case (snoc ys y)
    then show ?thesis by simp
  qed
  then show ?thesis
    by (simp add: path_eval)
qed

lemma safe_path_inside_example:
  "safe_path (plain_platform cwd) ''sub/dir/file.txt''
     = Inr (cwd @ [''workspace'', ''sub'', ''dir'', ''file.txt''])"
  by (simp add: path_eval)

text \<open>
  Claim C4, as the spec states it, holds for every sandbox root. Since \<open>resolve\<close>
  follows symbolic links, it fails on a tree with a link: in \<open>/home/dev\<close>, with
  \<open>workspace/sub\<close> a link to \<open>/outside\<close>, the name \<open>sub/dir/file.txt\<close> resolves to
  \<open>/outside/dir/file.txt\<close> and \<open>safe_path\<close> raises the path-escape error.
\<close>

theorem safe_path_examples_counterexample:
  "sandbox_root linked_platform = Inr [''home'', ''dev'', ''workspace'']
   \<and> resolve linked_platform (joinpath (parse_path WORK_DIR) (parse_path ''sub/dir/file.txt''))
       = Inr [''outside'', ''dir'', ''file.txt'']
   \<and> safe_path linked_platform ''sub/dir/file.txt'' = Inl (ValueError ''Unsafe path.'')"
  by (simp add: path_eval)

text \<open>
  Claim C4, amended: on every platform, whatever \<open>resolve\<close> does with links, a path
  that \<open>safe_path\<close> returns is the resolved path of the joined name and has the
  resolved sandbox root as a prefix, that is, it is the root or lies below it. On a tree
  without symbolic links, whatever the working directory, the sandbox root is the
  directory \<open>workspace\<close> in it, \<open>safe_path\<close> raises the path-escape error on
  \<open>../../etc/passwd\<close>, and it accepts \<open>sub/dir/file.txt\<close> and returns the root
  extended by these three components, of which the root is a proper ancestor.
\<close>

theorem safe_path_stays_in_sandbox:
  "(safe_path pf rel_path = Inr p \<longrightarrow>
      resolve pf (joinpath (parse_path WORK_DIR) (parse_path rel_path)) = Inr p
      \<and> (\<exists>w. sandbox_root pf = Inr w \<and> prefix w p))
   \<and> sandbox_root (plain_platform cwd) = Inr (cwd @ [''workspace''])
   \<and> safe_path (plain_platform cwd) ''../../etc/passwd'' = Inl (ValueError ''Unsafe path.'')
   \<and> safe_path (plain_platform cwd) ''sub/dir/file.txt''
       = Inr (cwd @ [''workspace'', ''sub'', ''dir'', ''file.txt''])
   \<and> cwd @ [''workspace''] \<in> set (parents (cwd @ [''workspace'', ''sub'', ''dir'', ''file.txt'']))"
proof -
  have "cwd @ [''workspace''] \<in> set (parents (cwd @ [''workspace'', ''sub'', ''dir'', ''file.txt'']))"
    by (simp add: in_parents_iff strict_prefix_def)
  then show ?thesis
    using safe_path_escape [of cwd] safe_path_inside_example [of cwd] sandbox_root_plain [of cwd]
      safe_path_inside [of pf rel_path p]
    by blast
qed

theorem safe_path_stays_in_sandbox_witness:
  "safe_path (plain_platform home) ''notes/../app.py''
     = Inr [''home'', ''dev'', ''workspace'', ''app.py'']
   \<and> sandbox_root (plain_platform home) = Inr [''home'', ''dev'', ''workspace'']
   \<and> prefix [''home'', ''dev'', ''workspace''] [''home'', ''dev'', ''workspace'', ''app.py'']"
proof -
  have h: "safe_path (plain_platform home) ''notes/../app.py''
      = Inr [''home'', ''dev'', ''workspace'', ''app.py'']"
    by (simp add: path_eval)
  show ?thesis
    using h safe_path_stays_in_sandbox [of "plain_platform home" "''notes/../app.py''"
        "[''home'', ''dev'', ''workspace'', ''app.py'']" home]
    by (simp add: home_def)
qed

text \<open>
  Claim C3, as the spec states it, has the caller of \<open>write_file_tool\<close> receive a
  rejection result. For \<open>../notes.txt\<close>, which resolves outside the sandbox, the call
  ends in the \<open>ValueError\<close> of \<open>safe_path\<close>; and when the Developer's block names the
  file \<open>..\<close> and the operator approves, the same exception ends the driver.
\<close>

theorem write_outside_counterexample:
  "resolve (plain_platform home) (joinpath (parse_path WORK_DIR) (parse_path ''../notes.txt''))
     = Inr [''home'', ''dev'', ''notes.txt'']
   \<and> sandbox_root (plain_platform home) = Inr [''home'', ''dev'', ''workspace'']
   \<and> write_file_tool (plain_platform home) home fresh_tree (Some ''../notes.txt'') (Some ''hello'')
       = (Inl (ValueError ''Unsafe path.''), fresh_tree)
   \<and> fst (main_after_chat
        [[''name'' \<mapsto> Some ''Developer'',
          ''content'' \<mapsto> Some ''```\<newline># file: ..\<newline>hello\<newline>```'']]
        ''20250830-083606''
        \<lparr>system = plain_platform home, current_dir = home, files = fresh_tree,
         printed = [], keyboard = [''y'']\<rparr>)
       = Inl (ValueError ''Unsafe path.'')"
proof -
  have first: "resolve (plain_platform home)
       (joinpath (parse_path WORK_DIR) (parse_path ''../notes.txt''))
     = Inr [''home'', ''dev'', ''notes.txt'']
   \<and> sandbox_root (plain_platform home) = Inr [''home'', ''dev'', ''workspace'']
   \<and> write_file_tool (plain_platform home) home fresh_tree (Some ''../notes.txt'') (Some ''hello'')
       = (Inl (ValueError ''Unsafe path.''), fresh_tree)"
    by (simp add: write_file_tool_def path_eval)
  have l: "lower ''Developer'' = ''developer''"
    by code_simp
  have t: "last_developer_text [[''name'' \<mapsto> Some ''Developer'',
         ''content'' \<mapsto> Some ''```\<newline># file: ..\<newline>hello\<newline>```'']]
     = Inr ''```\<newline># file: ..\<newline>hello\<newline>```''"
    by (simp add: last_developer_text_def developer_messages_def get_def truthy_def l)
  have e: "extract_code_block ''```\<newline># file: ..\<newline>hello\<newline>```''
     = Inr [''filename'' \<mapsto> Some ''..'', ''code'' \<mapsto> Some ''hello'']"
    by (simp add: extract_code_block_def text_eval)
  have s: "save_generated_code (plain_platform home) home fresh_tree ''20250830-083606''
       [''filename'' \<mapsto> Some ''..'', ''code'' \<mapsto> Some ''hello'']
     = (Inr (saved_mark @ '' Code saved for end users at generated_code/20250830-083606-..''),
        fresh_tree([''home'', ''dev'', ''generated_code'', ''20250830-083606-..''] \<mapsto> File ''hello''))"
    by (simp add: save_generated_code_def get_def truthy_def GENERATED_DIR_def
        write_text_def joinpath_def parse_path_def startswith_def home_def fresh_tree_def
        node_at_def pure_path_str_def Let_def plain_platform_def name_limits_def utf8_length_def)
  have w: "write_file_tool (plain_platform home) home fs (Some ''..'') (Some ''hello'')
     = (Inl (ValueError ''Unsafe path.''), fs)" for fs
    by (simp add: write_file_tool_def path_eval)
  have a: "fst (approve_and_write [''filename'' \<mapsto> Some ''..'', ''code'' \<mapsto> Some ''hello'']
       \<lparr>system = plain_platform home, current_dir = home, files = fs, printed = ps,
        keyboard = [''y'']\<rparr>)
     = Inl (ValueError ''Unsafe path.'')" for fs ps
    by (simp add: approve_and_write_def get_def truthy_def print_def input_def Let_def
        strip_def isspace_def lower_def lower_char_def w)
  have second: "fst (main_after_chat
        [[''name'' \<mapsto> Some ''Developer'',
          ''content'' \<mapsto> Some ''```\<newline># file: ..\<newline>hello\<newline>```'']]
        ''20250830-083606''
        \<lparr>system = plain_platform home, current_dir = home, files = fresh_tree,
         printed = [], keyboard = [''y'']\<rparr>)
       = Inl (ValueError ''Unsafe path.'')"
    by (simp add: main_after_chat_def t e s a get_def truthy_def print_def Let_def)
  from first second show ?thesis by blast
qed

text \<open>
  Claim C3, amended: for every filename for which \<open>resolve\<close> returns a path outside the
  resolved sandbox root, symbolic links followed, \<open>write_file_tool\<close> creates and
  modifies no file. With a non-empty content the refusal is the \<open>ValueError\<close> with the
  text \<open>Unsafe path.\<close> that \<open>safe_path\<close> raises; \<open>write_file_tool\<close> does not catch
  it, so it reaches the caller as an exception. With an empty or absent content the
  caller receives the missing-argument text.
\<close>

theorem write_outside_sandbox_raises:
  "resolve pf (joinpath (parse_path WORK_DIR) (parse_path name)) = Inr p \<Longrightarrow>
   sandbox_root pf = Inr w \<Longrightarrow>
   \<not> prefix w p \<Longrightarrow>
   safe_path pf name = Inl (ValueError ''Unsafe path.'')
   \<and> write_file_tool pf cwd fs (Some name) content
       = (if truthy content then Inl (ValueError ''Unsafe path.'')
          else Inr ''Error: Missing filename or content.'', fs)"
  using write_outside_refused [of pf name p w cwd fs content] by blast

theorem write_outside_sandbox_raises_witness:
  "resolve linked_platform (joinpath (parse_path WORK_DIR) (parse_path ''sub/notes.txt''))
     = Inr [''outside'', ''notes.txt'']
   \<and> sandbox_root linked_platform = Inr [''home'', ''dev'', ''workspace'']
   \<and> \<not> prefix [''home'', ''dev'', ''workspace''] [''outside'', ''notes.txt'']
   \<and> write_file_tool linked_platform home fresh_tree (Some ''sub/notes.txt'') (Some ''hello'')
       = (Inl (ValueError ''Unsafe path.''), fresh_tree)
   \<and> write_file_tool linked_platform home fresh_tree (Some ''sub/notes.txt'') None
       = (Inr ''Error: Missing filename or content.'', fresh_tree)"
proof -
  have p: "resolve linked_platform (joinpath (parse_path WORK_DIR) (parse_path ''sub/notes.txt''))
      = Inr [''outside'', ''notes.txt'']"
    by (simp add: path_eval)
  have w: "sandbox_root linked_platform = Inr [''home'', ''dev'', ''workspace'']"
    by (simp add: path_eval)
  have out: "\<not> prefix [''home'', ''dev'', ''workspace''] [''outside'', ''notes.txt'']"
    by simp
  show ?thesis
    using p w out
      write_outside_sandbox_raises [OF p w out, of home fresh_tree "Some ''hello''"]
      write_outside_sandbox_raises [OF p w out, of home fresh_tree None]
    by (simp add: truthy_def)
qed




end
